theory Spec2Isabelle
  imports Complex_Main "HOL-Library.Char_ord" "HOL-Library.List_Lexorder" "HOL-Library.Multiset"
begin

section \<open>Data model\<close>

text \<open>
  The rows of both tables reach the engine as Python dicts. The keys that
  \<^verbatim>\<open>weighted_access_score\<close> and the selection code read from either kind of row
  (\<^verbatim>\<open>id\<close>, \<^verbatim>\<open>seq\<close>, \<^verbatim>\<open>title\<close>, \<^verbatim>\<open>created_at\<close>, \<^verbatim>\<open>access_count\<close>) form the base record;
  a row of \<^verbatim>\<open>memories\<close> and a row of \<^verbatim>\<open>memory_nodes\<close> extend it. The key \<^verbatim>\<open>id\<close> is
  named \<open>item_id\<close>. A timestamp can be missing (\<open>None\<close>); the text columns are
  \<^verbatim>\<open>NOT NULL\<close> in the schema and \<^verbatim>\<open>access_count\<close> is an integer (the loader's query
  coalesces it). The key \<^verbatim>\<open>_promoted\<close>, which the view builders write into an entry,
  is the field \<open>promoted\<close>, \<open>False\<close> while the key is absent.
\<close>

record item =
  item_id :: string
  seq :: int
  title :: "string option"
  created_at :: "string option"
  access_count :: int

record entry = item +
  prefix :: string
  level_1 :: string
  min_role :: string
  favorite :: int
  obsolete :: int
  promoted :: bool

record node = item +
  parent_id :: string
  root_id :: string
  depth :: int
  content :: string

record v2_config =
  topAccessCount :: int
  topNewestCount :: int
  topObsoleteCount :: int

definition DEFAULT_V2_CONFIG :: v2_config where
  "DEFAULT_V2_CONFIG = \<lparr>topAccessCount = 3, topNewestCount = 5, topObsoleteCount = 3\<rparr>"

section \<open>Python built-ins used by the engine\<close>

text \<open>
  A \<^verbatim>\<open>defaultdict(list)\<close> is an association list in insertion order:
  \<open>dict_append k v d\<close> is \<^verbatim>\<open>d[k].append(v)\<close> and \<open>dict_get d k\<close> is \<^verbatim>\<open>d.get(k, [])\<close>.
\<close>

type_synonym 'v listdict = "(string \<times> 'v list) list"

fun dict_append :: "string \<Rightarrow> 'v \<Rightarrow> 'v listdict \<Rightarrow> 'v listdict" where
  "dict_append k v [] = [(k, [v])]"
| "dict_append k v ((k', vs) # d) =
     (if k' = k then (k', vs @ [v]) # d else (k', vs) # dict_append k v d)"

definition dict_get :: "'v listdict \<Rightarrow> string \<Rightarrow> 'v list" where
  "dict_get d k = (case map_of d k of None \<Rightarrow> [] | Some vs \<Rightarrow> vs)"

definition group_by :: "('v \<Rightarrow> string) \<Rightarrow> 'v list \<Rightarrow> 'v listdict" where
  "group_by key xs = foldl (\<lambda>d x. dict_append (key x) x d) [] xs"

text \<open>
  \<open>slice_to n xs\<close> is the slice \<^verbatim>\<open>xs[:n]\<close>: a negative bound counts from the end.
\<close>

definition slice_to :: "int \<Rightarrow> 'a list \<Rightarrow> 'a list" where
  "slice_to n xs =
     (if 0 \<le> n then take (nat n) xs else take (length xs - nat (- n)) xs)"

text \<open>
  \<open>sorted_reverse key xs\<close> is \<^verbatim>\<open>sorted(xs, key=key, reverse=True)\<close>: CPython reverses
  the list, sorts it stably in ascending order and reverses the result, so that
  elements with equal keys keep their original order.
\<close>

definition sorted_reverse :: "('a \<Rightarrow> 'k::linorder) \<Rightarrow> 'a list \<Rightarrow> 'a list" where
  "sorted_reverse key xs = rev (sort_key key (rev xs))"

section \<open>Scoring\<close>

text \<open>
  The two things \<^verbatim>\<open>weighted_access_score\<close> takes from its environment are arguments:
  \<open>now\<close> is the reading of \<^verbatim>\<open>datetime.now(timezone.utc)\<close> in seconds, and
  \<open>fromiso s\<close> is the instant, in seconds, that
  \<^verbatim>\<open>datetime.fromisoformat(s.replace("Z", "+00:00"))\<close> denotes, or \<open>None\<close> when the
  \<^verbatim>\<open>try\<close> block raises (the parser rejects the text, or the parsed time carries no
  zone and the subtraction raises). Floats are modelled as reals.
\<close>

type_synonym isoparser = "string \<Rightarrow> real option"

definition weighted_access_score :: "isoparser \<Rightarrow> real \<Rightarrow> 'a item_scheme \<Rightarrow> real" where
  "weighted_access_score fromiso now entry =
     (let ac = access_count entry in
      case created_at entry of
        None \<Rightarrow> 0
      | Some created \<Rightarrow>
          if created = [] \<or> ac = 0 then 0
          else (case fromiso created of
                  None \<Rightarrow> real_of_int ac
                | Some t \<Rightarrow>
                    (let age_s = now - t; age_days = max (age_s / 86400) 0
                     in real_of_int ac / log 2 (age_days + 2))))"

section \<open>Loading\<close>


section \<open>Selection\<close>

text \<open>
  \<open>created_key\<close> is the sort key \<^verbatim>\<open>e["created_at"] or ""\<close>; \<open>newest\<close> and
  \<open>most_accessed\<close> are the two slices taken for one category (and, in the capping code,
  for the children of one entry).
\<close>

definition created_key :: "'a item_scheme \<Rightarrow> string" where
  "created_key e = (case created_at e of None \<Rightarrow> [] | Some s \<Rightarrow> s)"

definition newest :: "v2_config \<Rightarrow> 'a item_scheme list \<Rightarrow> 'a item_scheme list" where
  "newest cfg entries = slice_to (topNewestCount cfg) (sorted_reverse created_key entries)"

definition most_accessed ::
  "isoparser \<Rightarrow> real \<Rightarrow> v2_config \<Rightarrow> 'a item_scheme list \<Rightarrow> 'a item_scheme list" where
  "most_accessed fromiso now cfg entries =
     slice_to (topAccessCount cfg)
       (sorted_reverse (weighted_access_score fromiso now)
          (filter (\<lambda>e. 0 < access_count e) entries))"

definition compute_v2_selection ::
  "isoparser \<Rightarrow> real \<Rightarrow> entry list \<Rightarrow> entry list \<Rightarrow> v2_config
     \<Rightarrow> string set \<times> string set \<times> entry list" where
  "compute_v2_selection fromiso now active obsolete_rows cfg =
     (let by_prefix = group_by prefix active;
          expanded_ids =
            set (concat (map (\<lambda>(p, entries).
                    map item_id (newest cfg entries)
                    @ map item_id (most_accessed fromiso now cfg entries)) by_prefix)
                 @ map item_id (filter (\<lambda>e. favorite e \<noteq> 0) active));
          promoted_ids =
            set (concat (map (\<lambda>(p, entries).
                    map item_id (most_accessed fromiso now cfg entries)) by_prefix));
          visible_obsolete =
            slice_to (topObsoleteCount cfg)
              (sorted_reverse (weighted_access_score fromiso now) obsolete_rows)
      in (expanded_ids, promoted_ids, visible_obsolete))"

section \<open>Token accounting\<close>

definition estimate_tokens :: "string \<Rightarrow> nat" where
  "estimate_tokens text = (if text \<noteq> [] then length text div 4 else 0)"

definition count_all_tokens :: "entry list \<Rightarrow> entry list \<Rightarrow> node listdict \<Rightarrow> nat" where
  "count_all_tokens active obsolete_rows children_map =
     sum_list (map (\<lambda>entry. estimate_tokens (level_1 entry)) (active @ obsolete_rows))
     + sum_list (map (\<lambda>(k, nodes). sum_list (map (\<lambda>node. estimate_tokens (content node)) nodes))
                  children_map)"

text \<open>
  \<open>count_subtree_tokens\<close> is the source's \<^verbatim>\<open>_count_subtree_tokens\<close>.
  The recursion over the children map is bounded by the interpreter's recursion limit:
  the first argument is the number of frames still available, and \<open>None\<close> is the
  \<^verbatim>\<open>RecursionError\<close> raised when they run out.
\<close>

fun count_subtree_tokens :: "nat \<Rightarrow> node list \<Rightarrow> node listdict \<Rightarrow> nat option" where
  "count_subtree_tokens 0 nodes children_map = None"
| "count_subtree_tokens (Suc fuel) [] children_map = Some 0"
| "count_subtree_tokens (Suc fuel) (node # nodes) children_map =
     (let grandchildren = dict_get children_map (item_id node) in
      case (if grandchildren \<noteq> [] then count_subtree_tokens fuel grandchildren children_map
            else Some 0) of
        None \<Rightarrow> None
      | Some g \<Rightarrow>
          map_option (\<lambda>rest. estimate_tokens (content node) + g + rest)
            (count_subtree_tokens (Suc fuel) nodes children_map))"

text \<open>
  The capping of an entry's direct children, written out twice in the source
  (in \<^verbatim>\<open>count_shown_tokens\<close> and in \<^verbatim>\<open>add_entry_to_tree\<close>) with the same text.
\<close>

definition selected_ids :: "isoparser \<Rightarrow> real \<Rightarrow> v2_config \<Rightarrow> node list \<Rightarrow> string set" where
  "selected_ids fromiso now cfg children =
     (let newest_ids = set (map item_id (newest cfg children));
          access_ids = set (map item_id (most_accessed fromiso now cfg children))
      in newest_ids \<union> access_ids)"

definition caps_apply :: "v2_config option \<Rightarrow> node list \<Rightarrow> bool" where
  "caps_apply v2 children =
     (case v2 of None \<Rightarrow> False
      | Some cfg \<Rightarrow> children \<noteq> [] \<and> topNewestCount cfg < int (length children))"

definition capped_children ::
  "isoparser \<Rightarrow> real \<Rightarrow> v2_config option \<Rightarrow> node list \<Rightarrow> node list" where
  "capped_children fromiso now v2 children =
     (if caps_apply v2 children
      then filter (\<lambda>c. item_id c \<in> selected_ids fromiso now (the v2) children) children
      else children)"

fun count_shown_tokens ::
  "nat \<Rightarrow> isoparser \<Rightarrow> real \<Rightarrow> entry list \<Rightarrow> node listdict \<Rightarrow> v2_config option
     \<Rightarrow> nat option" where
  "count_shown_tokens limit fromiso now [] children_map v2 = Some 0"
| "count_shown_tokens limit fromiso now (entry # shown_entries) children_map v2 =
     (let children = capped_children fromiso now v2 (dict_get children_map (item_id entry)) in
      case count_subtree_tokens limit children children_map of
        None \<Rightarrow> None
      | Some s \<Rightarrow>
          map_option (\<lambda>rest. estimate_tokens (level_1 entry) + s + rest)
            (count_shown_tokens limit fromiso now shown_entries children_map v2))"

section \<open>View assembly\<close>

text \<open>
  The tree widget is a tree of labels. A label keeps the values its format string
  prints, not the text: the entry or node, the mode, or the counters.
\<close>

datatype label =
    EntryLabel entry bool
  | NodeLabel node
  | MoreLabel int string
  | GroupLabel string nat "nat option"
  | ObsoleteLabel nat "nat option"
  | FullRootLabel nat nat nat
  | V2RootLabel nat nat nat nat
  | EmptyRootLabel
  | NoMemoriesLabel

datatype tree = Leaf label | Branch label "tree list"

fun add_node_to_tree :: "nat \<Rightarrow> node \<Rightarrow> node listdict \<Rightarrow> tree option" where
  "add_node_to_tree 0 node children_map = None"
| "add_node_to_tree (Suc fuel) node children_map =
     (let children = dict_get children_map (item_id node) in
      if children \<noteq> []
      then map_option (Branch (NodeLabel node))
             (those (map (\<lambda>child. add_node_to_tree fuel child children_map) children))
      else Some (Leaf (NodeLabel node)))"

definition hidden_count :: "isoparser \<Rightarrow> real \<Rightarrow> v2_config option \<Rightarrow> node list \<Rightarrow> int" where
  "hidden_count fromiso now v2 children =
     (if caps_apply v2 children
      then int (length children) - int (length (capped_children fromiso now v2 children))
      else 0)"

definition add_entry_to_tree ::
  "nat \<Rightarrow> isoparser \<Rightarrow> real \<Rightarrow> entry \<Rightarrow> node listdict \<Rightarrow> bool \<Rightarrow> v2_config option
     \<Rightarrow> tree option" where
  "add_entry_to_tree limit fromiso now entry children_map v2_mode v2 =
     (let all_children = dict_get children_map (item_id entry);
          hidden = hidden_count fromiso now v2 all_children;
          children = capped_children fromiso now v2 all_children
      in if children \<noteq> []
         then map_option
                (\<lambda>subtrees. Branch (EntryLabel entry v2_mode)
                   (subtrees @ (if 0 < hidden then [Leaf (MoreLabel hidden (item_id entry))]
                                else [])))
                (those (map (\<lambda>child. add_node_to_tree limit child children_map) children))
         else Some (Leaf (EntryLabel entry v2_mode)))"

text \<open>
  \<open>build_full_tree\<close> and \<open>build_v2_tree\<close> are the methods \<^verbatim>\<open>_build_full_tree\<close> and
  \<^verbatim>\<open>_build_v2_tree\<close>; they return the tree they build under the root, with the root's
  label. \<open>mark_promoted\<close> is the loop that writes \<^verbatim>\<open>_promoted\<close> into the active entries;
  \<open>v2_active\<close>, \<open>v2_visible_obsolete\<close>, \<open>v2_total_tok\<close> and \<open>v2_shown_tok\<close> are the
  locals \<^verbatim>\<open>v2_active\<close>, \<^verbatim>\<open>visible_obsolete\<close>, \<^verbatim>\<open>total_tok\<close> and \<^verbatim>\<open>shown_tok\<close> of the
  budgeted builder. The labels of the prefixes and the expansion state of the widget are
  not modelled. \<open>rebuild_tree\<close> takes the mode, the recursion limit, the configuration
  and the two query results as arguments.
\<close>

definition mark_promoted :: "string set \<Rightarrow> entry list \<Rightarrow> entry list" where
  "mark_promoted promoted_ids rs = map (\<lambda>r. r\<lparr>promoted := item_id r \<in> promoted_ids\<rparr>) rs"


definition v2_active ::
  "isoparser \<Rightarrow> real \<Rightarrow> v2_config \<Rightarrow> entry list \<Rightarrow> entry list \<Rightarrow> entry list" where
  "v2_active fromiso now cfg active0 obsolete_rows =
     (case compute_v2_selection fromiso now active0 obsolete_rows cfg of
        (expanded_ids, promoted_ids, visible_obsolete) \<Rightarrow>
          filter (\<lambda>e. item_id e \<in> expanded_ids) (mark_promoted promoted_ids active0))"

definition v2_visible_obsolete ::
  "isoparser \<Rightarrow> real \<Rightarrow> v2_config \<Rightarrow> entry list \<Rightarrow> entry list \<Rightarrow> entry list" where
  "v2_visible_obsolete fromiso now cfg active0 obsolete_rows =
     (case compute_v2_selection fromiso now active0 obsolete_rows cfg of
        (expanded_ids, promoted_ids, visible_obsolete) \<Rightarrow> visible_obsolete)"

definition v2_total_tok ::
  "isoparser \<Rightarrow> real \<Rightarrow> v2_config \<Rightarrow> entry list \<Rightarrow> entry list \<Rightarrow> node listdict \<Rightarrow> nat" where
  "v2_total_tok fromiso now cfg active0 obsolete_rows children_map =
     (case compute_v2_selection fromiso now active0 obsolete_rows cfg of
        (expanded_ids, promoted_ids, visible_obsolete) \<Rightarrow>
          count_all_tokens (mark_promoted promoted_ids active0) obsolete_rows children_map)"

definition v2_shown_tok ::
  "nat \<Rightarrow> isoparser \<Rightarrow> real \<Rightarrow> v2_config \<Rightarrow> entry list \<Rightarrow> entry list \<Rightarrow> node listdict
     \<Rightarrow> nat option" where
  "v2_shown_tok limit fromiso now cfg active0 obsolete_rows children_map =
     count_shown_tokens limit fromiso now
       (v2_active fromiso now cfg active0 obsolete_rows
        @ v2_visible_obsolete fromiso now cfg active0 obsolete_rows)
       children_map (Some cfg)"



section \<open>Concrete snapshots\<close>

text \<open>
  Rows and a parser for evaluating the engine on explicit inputs. The parser knows two
  instants, six days apart, and rejects every other text.
\<close>

definition demo_fromiso :: isoparser where
  "demo_fromiso s =
     (if s = ''2024-01-01T00:00:00Z'' then Some 1704067200
      else if s = ''2024-01-07T00:00:00Z'' then Some 1704585600
      else None)"

definition row ::
  "string \<Rightarrow> string \<Rightarrow> int \<Rightarrow> string option \<Rightarrow> int \<Rightarrow> int \<Rightarrow> int \<Rightarrow> string \<Rightarrow> entry" where
  "row i p s c ac fav obs txt =
     \<lparr>item_id = i, seq = s, title = None, created_at = c, access_count = ac,
      prefix = p, level_1 = txt, min_role = ''worker'', favorite = fav, obsolete = obs,
      promoted = False\<rparr>"

definition child ::
  "string \<Rightarrow> string \<Rightarrow> string \<Rightarrow> int \<Rightarrow> int \<Rightarrow> string option \<Rightarrow> int \<Rightarrow> string \<Rightarrow> node" where
  "child i p r d s c ac txt =
     \<lparr>item_id = i, seq = s, title = None, created_at = c, access_count = ac,
      parent_id = p, root_id = r, depth = d, content = txt\<rparr>"

definition zero_caps :: v2_config where
  "zero_caps = \<lparr>topAccessCount = 0, topNewestCount = 0, topObsoleteCount = 0\<rparr>"



definition c5_favorite :: entry where
  "c5_favorite = row ''L0001'' ''L'' 1 (Some ''2024-01-01T00:00:00Z'') 0 1 0 ''kept''"

definition c5_plain :: entry where
  "c5_plain = row ''L0002'' ''L'' 2 (Some ''2024-01-07T00:00:00Z'') 4 0 0 ''dropped''"

definition c8_old :: entry where
  "c8_old = row ''P0001'' ''P'' 1 (Some ''2024-01-01T00:00:00Z'') 2 0 0 ''old''"

definition c8_new :: entry where
  "c8_new = row ''P0002'' ''P'' 2 (Some ''2024-01-07T00:00:00Z'') 1 0 0 ''new''"

definition c8_cfg :: v2_config where
  "c8_cfg = \<lparr>topAccessCount = 1, topNewestCount = 0, topObsoleteCount = 0\<rparr>"

definition c4_first :: entry where
  "c4_first = row ''P0001'' ''P'' 1 (Some ''2024-01-07T00:00:00Z'') 1 0 0 ''first''"

definition c4_second :: entry where
  "c4_second = row ''P0002'' ''P'' 2 (Some ''2024-01-07T00:00:00Z'') 0 0 0 ''second''"

definition c4_third :: entry where
  "c4_third = row ''P0003'' ''P'' 3 (Some ''2024-01-01T00:00:00Z'') 3 0 0 ''third''"

definition c4_cfg :: v2_config where
  "c4_cfg = \<lparr>topAccessCount = 1, topNewestCount = 1, topObsoleteCount = 0\<rparr>"

definition c4_newest_cfg :: v2_config where
  "c4_newest_cfg = \<lparr>topAccessCount = 0, topNewestCount = 1, topObsoleteCount = 0\<rparr>"

definition c6_entry :: entry where
  "c6_entry = row ''P0001'' ''P'' 1 (Some ''2024-01-01T00:00:00Z'') 0 0 0 ''Project notes''"

definition c6_child :: node where
  "c6_child = child ''P0001.1'' ''P0001'' ''P0001'' 2 1 (Some ''2024-01-01T00:00:00Z'') 0
                ''first detail''"

definition c2_grand1 :: node where
  "c2_grand1 = child ''P0001.1.1'' ''P0001.1'' ''P0001'' 3 1 (Some ''2024-01-01T00:00:00Z'') 0
                 ''older remark''"

definition c2_grand2 :: node where
  "c2_grand2 = child ''P0001.1.2'' ''P0001.1'' ''P0001'' 3 2 (Some ''2024-01-07T00:00:00Z'') 0
                 ''newer remark''"


definition c1_hidden :: entry where
  "c1_hidden = row ''E0001'' ''E'' 1 (Some ''2024-01-01T00:00:00Z'') 0 0 1 ''old''"

definition c1_child2 :: node where
  "c1_child2 = child ''P0001.2'' ''P0001'' ''P0001'' 2 2 (Some ''2024-01-07T00:00:00Z'') 0
                 ''second detail''"


definition c1_second :: entry where
  "c1_second = row ''P0002'' ''P'' 2 (Some ''2024-01-07T00:00:00Z'') 0 0 0 ''Second project''"

definition c1_clash :: node where
  "c1_clash = child ''P0001'' ''P0002'' ''P0002'' 2 1 (Some ''2024-01-01T00:00:00Z'') 0 ''dup''"

section \<open>Well-formed snapshots and observers\<close>

text \<open>
  The invariants of the data model: ids are unique within each table, a node has
  depth at least 2, the children of a record have depth 2 (a record has depth 1), and a
  child is one level below its parent. \<open>fits_limit\<close> says that no node lies deeper than
  the recursion limit allows.
\<close>

definition wf_snapshot :: "entry list \<Rightarrow> node list \<Rightarrow> bool" where
  "wf_snapshot rows all_nodes \<longleftrightarrow>
     distinct (map item_id rows) \<and> distinct (map item_id all_nodes)
     \<and> (\<forall>n\<in>set all_nodes. 2 \<le> depth n)
     \<and> (\<forall>n\<in>set all_nodes. \<forall>r\<in>set rows. parent_id n = item_id r \<longrightarrow> depth n = 2)
     \<and> (\<forall>n\<in>set all_nodes. \<forall>p\<in>set all_nodes.
           parent_id n = item_id p \<longrightarrow> depth n = depth p + 1)"

definition fits_limit :: "nat \<Rightarrow> node list \<Rightarrow> bool" where
  "fits_limit limit all_nodes \<longleftrightarrow> 0 < limit \<and> (\<forall>n\<in>set all_nodes. depth n \<le> int limit)"

text \<open>
  Observers of a tree: the label at its root, and whether every node label in it is
  followed by one subtree for each child of that node in the children map, in order.
\<close>

fun root_label :: "tree \<Rightarrow> label" where
  "root_label (Leaf l) = l"
| "root_label (Branch l ts) = l"

fun shows_all_children :: "node listdict \<Rightarrow> tree \<Rightarrow> bool" where
  "shows_all_children children_map (Leaf (NodeLabel n)) =
     (dict_get children_map (item_id n) = [])"
| "shows_all_children children_map (Branch (NodeLabel n) ts) =
     (map root_label ts = map NodeLabel (dict_get children_map (item_id n))
      \<and> (\<forall>t\<in>set ts. shows_all_children children_map t))"
| "shows_all_children children_map t = False"


fun subtrees :: "tree \<Rightarrow> tree list" where
  "subtrees (Leaf l) = []"
| "subtrees (Branch l ts) = ts"




section \<open>Dictionaries, slices and sorting\<close>

lemma dict_get_dict_append:
  "dict_get (dict_append k v d) k' = (if k' = k then dict_get d k @ [v] else dict_get d k')"
  by (induction d) (auto simp: dict_get_def)

lemma keys_dict_append: "fst ` set (dict_append k v d) = insert k (fst ` set d)"
proof (induction d)
  case Nil
  show ?case by simp
next
  case (Cons a d)
  obtain k' vs where a: "a = (k', vs)" by (cases a)
  show ?case
  proof (cases "k' = k")
    case True
    then show ?thesis by (simp add: a)
  next
    case False
    then show ?thesis using Cons.IH by (simp add: a insert_commute)
  qed
qed

lemma distinct_dict_append:
  "distinct (map fst d) \<Longrightarrow> distinct (map fst (dict_append k v d))"
proof (induction d)
  case Nil
  then show ?case by simp
next
  case (Cons a d)
  obtain k' vs where a: "a = (k', vs)" by (cases a)
  have "k' \<noteq> k \<Longrightarrow> k' \<notin> fst ` set (dict_append k v d)"
    using Cons.prems by (simp add: keys_dict_append a)
  with Cons show ?case by (auto simp: a)
qed

lemma group_by_snoc: "group_by key (xs @ [x]) = dict_append (key x) x (group_by key xs)"
  by (simp add: group_by_def)

lemma dict_get_group_by: "dict_get (group_by key xs) k = filter (\<lambda>x. key x = k) xs"
proof (induction xs rule: rev_induct)
  case Nil
  show ?case by (simp add: group_by_def dict_get_def)
next
  case (snoc x xs)
  then show ?case by (auto simp: group_by_snoc dict_get_dict_append)
qed

lemma keys_group_by: "fst ` set (group_by key xs) = key ` set xs"
proof (induction xs rule: rev_induct)
  case Nil
  show ?case by (simp add: group_by_def)
next
  case (snoc x xs)
  then show ?case by (simp add: group_by_snoc keys_dict_append)
qed

lemma distinct_keys_group_by: "distinct (map fst (group_by key xs))"
proof (induction xs rule: rev_induct)
  case Nil
  show ?case by (simp add: group_by_def)
next
  case (snoc x xs)
  then show ?case by (simp add: group_by_snoc distinct_dict_append)
qed

lemma group_by_values:
  assumes "(k, vs) \<in> set (group_by key xs)"
  shows "vs = filter (\<lambda>x. key x = k) xs"
proof -
  have "map_of (group_by key xs) k = Some vs"
    using assms map_of_eq_Some_iff [OF distinct_keys_group_by] by blast
  then have "dict_get (group_by key xs) k = vs" by (simp add: dict_get_def)
  then show ?thesis by (simp add: dict_get_group_by)
qed

lemma sum_values_dict_append:
  "sum_list (map (\<lambda>(k, vs). sum_list (map f vs)) (dict_append k v d))
     = sum_list (map (\<lambda>(k, vs). sum_list (map f vs)) d) + (f v :: nat)"
  by (induction d) auto

lemma sum_values_group_by:
  "sum_list (map (\<lambda>(k, vs). sum_list (map f vs)) (group_by key xs))
     = sum_list (map f xs :: nat list)"
proof (induction xs rule: rev_induct)
  case Nil
  show ?case by (simp add: group_by_def)
next
  case (snoc x xs)
  then show ?case by (simp add: group_by_snoc sum_values_dict_append)
qed



lemma mset_sorted_reverse: "mset (sorted_reverse key xs) = mset xs"
  by (simp add: sorted_reverse_def)

section \<open>Scoring: the fallback\<close>




section \<open>Selection: favorites\<close>

text \<open>
  C5: every active record whose favorite flag is set is in the visible ids, whatever the
  caps are, also when they are all 0.
\<close>

theorem favorites_visible:
  "e \<in> set active \<Longrightarrow> favorite e \<noteq> 0
     \<Longrightarrow> item_id e \<in> fst (compute_v2_selection fromiso now active obsolete_rows cfg)"
  by (auto simp: compute_v2_selection_def Let_def)

theorem favorites_visible_witness:
  "c5_favorite \<in> set [c5_favorite, c5_plain] \<and> favorite c5_favorite \<noteq> 0
   \<and> topNewestCount zero_caps = 0 \<and> topAccessCount zero_caps = 0
   \<and> item_id c5_favorite
        \<in> fst (compute_v2_selection demo_fromiso 1704585600 [c5_favorite, c5_plain] []
                 zero_caps)"
  using favorites_visible [of c5_favorite "[c5_favorite, c5_plain]" demo_fromiso 1704585600
          "[]" zero_caps]
  by (simp add: c5_favorite_def row_def zero_caps_def)

lemma slice_to_mono: "0 \<le> n \<Longrightarrow> n \<le> m \<Longrightarrow> set (slice_to n xs) \<subseteq> set (slice_to m xs)"
  by (simp add: slice_to_def set_take_subset_set_take)

lemma length_slice_to: "0 \<le> n \<Longrightarrow> length (slice_to n xs) = min (length xs) (nat n)"
  by (simp add: slice_to_def)

lemma mset_slice_to: "mset (slice_to n xs) \<subseteq># mset xs"
proof -
  have "mset (take k xs) \<subseteq># mset xs" for k
    by (metis append_take_drop_id mset_append mset_subset_eq_add_left)
  then show ?thesis by (simp add: slice_to_def)
qed

lemma insort_key_cong_on:
  "f x = g x \<Longrightarrow> (\<forall>y\<in>set ys. f y = g y) \<Longrightarrow> insort_key f x ys = insort_key g x ys"
  by (induction ys) auto

lemma sort_key_cong_on: "(\<forall>x\<in>set xs. f x = g x) \<Longrightarrow> sort_key f xs = sort_key g xs"
proof (induction xs)
  case Nil
  show ?case by simp
next
  case (Cons x xs)
  then have "sort_key f xs = sort_key g xs" by simp
  moreover have "insort_key f x (sort_key g xs) = insort_key g x (sort_key g xs)"
    using Cons.prems by (intro insort_key_cong_on) auto
  ultimately show ?case by simp
qed

lemma sorted_reverse_cong_on:
  "(\<forall>x\<in>set xs. f x = g x) \<Longrightarrow> sorted_reverse f xs = sorted_reverse g xs"
  using sort_key_cong_on [of "rev xs" f g] by (simp add: sorted_reverse_def)

lemma sorted_reverse_descending:
  "sorted_wrt (\<lambda>a b. key b \<le> key a) (sorted_reverse key xs)"
proof -
  have "sorted (map key (sort_key key (rev xs)))" by (rule sorted_sort_key)
  then have "sorted_wrt (\<lambda>a b. key a \<le> key b) (sort_key key (rev xs))"
    by (simp add: sorted_wrt_map)
  then show ?thesis by (simp add: sorted_reverse_def sorted_wrt_rev)
qed

lemma sorted_reverse_stable:
  "filter (\<lambda>x. key x = k) (sorted_reverse key xs) = filter (\<lambda>x. key x = k) xs"
proof -
  have "filter (\<lambda>x. key x = k) (sorted_reverse key xs)
          = rev (filter (\<lambda>x. key x = k) (sort_key key (rev xs)))"
    by (simp add: sorted_reverse_def rev_filter)
  also have "\<dots> = rev (filter (\<lambda>x. key x = k) (rev xs))"
    by (simp only: sort_key_stable)
  also have "\<dots> = filter (\<lambda>x. key x = k) xs"
    by (simp add: rev_filter)
  finally show ?thesis .
qed

lemma most_accessed_newest_cap:
  "most_accessed fromiso now (cfg\<lparr>topNewestCount := n\<rparr>) entries = most_accessed fromiso now cfg entries"
  by (simp add: most_accessed_def)

lemma length_sorted_reverse: "length (sorted_reverse key xs) = length xs"
  by (simp add: sorted_reverse_def)

lemma log2_4: "log 2 4 = 2"
  using log_pow_cancel [of 2 2] by simp

lemma log2_8: "log 2 8 = 3"
  using log_pow_cancel [of 2 3] by simp

lemma log2_10: "log 2 10 < 4"
proof -
  have "log 2 10 < log 2 16" by simp
  also have "log 2 16 = 4" using log_pow_cancel [of 2 4] by simp
  finally show ?thesis .
qed

lemma log2_10_pos: "0 < log 2 10"
  by simp

lemma c8_scores:
  "weighted_access_score demo_fromiso 1704585600 c8_old = 2 / 3"
  "weighted_access_score demo_fromiso 1704585600 c8_new = 1"
  "weighted_access_score demo_fromiso 1704758400 c8_old = 2 / log 2 10"
  "weighted_access_score demo_fromiso 1704758400 c8_new = 1 / 2"
  by (simp_all add: weighted_access_score_def c8_old_def c8_new_def row_def demo_fromiso_def
        log2_4 log2_8)

lemma log2_10_le: "log 2 10 \<le> 4"
  using log2_10 by simp

section \<open>Selection: monotonicity in the newest cap\<close>

text \<open>
  C9: with a validated (non-negative) newest cap, raising it while the snapshot, the
  clock and the other caps stay fixed never removes an id from the visible ids.
\<close>

theorem newest_cap_monotone:
  assumes "0 \<le> topNewestCount cfg" and "topNewestCount cfg \<le> n"
  shows "fst (compute_v2_selection fromiso now active obsolete_rows cfg)
           \<subseteq> fst (compute_v2_selection fromiso now active obsolete_rows
                    (cfg\<lparr>topNewestCount := n\<rparr>))"
proof -
  have "set (newest cfg entries) \<subseteq> set (newest (cfg\<lparr>topNewestCount := n\<rparr>) entries)"
    for entries :: "entry list"
    using assms by (simp add: newest_def slice_to_mono)
  then show ?thesis
    by (fastforce simp: compute_v2_selection_def Let_def most_accessed_newest_cap)
qed

theorem newest_cap_monotone_witness:
  "0 \<le> topNewestCount zero_caps \<and> topNewestCount zero_caps \<le> 1
   \<and> fst (compute_v2_selection demo_fromiso 1704585600 [c5_favorite, c5_plain] [] zero_caps)
        = {''L0001''}
   \<and> fst (compute_v2_selection demo_fromiso 1704585600 [c5_favorite, c5_plain] []
             (zero_caps\<lparr>topNewestCount := 1\<rparr>)) = {''L0001'', ''L0002''}
   \<and> fst (compute_v2_selection demo_fromiso 1704585600 [c5_favorite, c5_plain] [] zero_caps)
        \<subseteq> fst (compute_v2_selection demo_fromiso 1704585600 [c5_favorite, c5_plain] []
                 (zero_caps\<lparr>topNewestCount := 1\<rparr>))"
  using newest_cap_monotone [of zero_caps 1 demo_fromiso 1704585600 "[c5_favorite, c5_plain]" "[]"]
  by (simp add: compute_v2_selection_def group_by_def c5_favorite_def c5_plain_def row_def
        zero_caps_def newest_def most_accessed_def slice_to_def sorted_reverse_def created_key_def)

section \<open>Selection: dependence on the clock\<close>

text \<open>
  C8, as the claim states it, fails: the score reads the clock, so two runs on the same
  snapshot with the same configuration, two days apart, promote different records.
\<close>

theorem selection_clock_counterexample:
  "fst (snd (compute_v2_selection demo_fromiso 1704585600 [c8_old, c8_new] [] c8_cfg))
     = {''P0002''}
   \<and> fst (snd (compute_v2_selection demo_fromiso 1704758400 [c8_old, c8_new] [] c8_cfg))
     = {''P0001''}"
proof -
  have g: "group_by prefix [c8_old, c8_new] = [(''P'', [c8_old, c8_new])]"
    by (simp add: group_by_def c8_old_def c8_new_def row_def)
  have a: "0 < access_count c8_old" "0 < access_count c8_new"
    by (simp_all add: c8_old_def c8_new_def row_def)
  have i: "item_id c8_old = ''P0001''" "item_id c8_new = ''P0002''"
    by (simp_all add: c8_old_def c8_new_def row_def)
  have "most_accessed demo_fromiso 1704585600 c8_cfg [c8_old, c8_new] = [c8_new]"
    by (simp add: most_accessed_def a c8_cfg_def slice_to_def sorted_reverse_def c8_scores)
  moreover have "most_accessed demo_fromiso 1704758400 c8_cfg [c8_old, c8_new] = [c8_old]"
    by (simp add: most_accessed_def a c8_cfg_def slice_to_def sorted_reverse_def c8_scores log2_10_le)
  ultimately show ?thesis
    by (simp add: compute_v2_selection_def g i)
qed

lemma most_accessed_cong_on:
  assumes "\<forall>e\<in>set entries. weighted_access_score fromiso now1 e = weighted_access_score fromiso now2 e"
  shows "most_accessed fromiso now1 cfg entries = most_accessed fromiso now2 cfg entries"
proof -
  have "sorted_reverse (weighted_access_score fromiso now1) (filter (\<lambda>e. 0 < access_count e) entries)
        = sorted_reverse (weighted_access_score fromiso now2) (filter (\<lambda>e. 0 < access_count e) entries)"
    using assms by (intro sorted_reverse_cong_on) simp
  then show ?thesis by (simp add: most_accessed_def)
qed

lemma group_by_subset: "(k, vs) \<in> set (group_by key xs) \<Longrightarrow> set vs \<subseteq> set xs"
  by (auto dest: group_by_values)

text \<open>
  C8, amended: the selection is a function of the snapshot, the configuration and the
  scores the clock reading gives: two runs on an unchanged snapshot with the same
  configuration in which every record scores the same (in particular two runs at the
  same clock reading) yield identical visible ids, promoted ids and visible obsolete
  records.
\<close>

theorem selection_same_scores:
  assumes "\<forall>e\<in>set active \<union> set obsolete_rows.
             weighted_access_score fromiso now1 e = weighted_access_score fromiso now2 e"
  shows "compute_v2_selection fromiso now1 active obsolete_rows cfg
           = compute_v2_selection fromiso now2 active obsolete_rows cfg"
proof -
  have m: "most_accessed fromiso now1 cfg entries = most_accessed fromiso now2 cfg entries"
    if "(p, entries) \<in> set (group_by prefix active)" for p entries
    using that assms group_by_subset [OF that] by (intro most_accessed_cong_on) auto
  have e: "map (\<lambda>(p, entries). map item_id (newest cfg entries)
                   @ map item_id (most_accessed fromiso now1 cfg entries)) (group_by prefix active)
         = map (\<lambda>(p, entries). map item_id (newest cfg entries)
                   @ map item_id (most_accessed fromiso now2 cfg entries)) (group_by prefix active)"
    by (rule map_cong) (auto simp: m)
  have p: "map (\<lambda>(p, entries). map item_id (most_accessed fromiso now1 cfg entries))
              (group_by prefix active)
         = map (\<lambda>(p, entries). map item_id (most_accessed fromiso now2 cfg entries))
              (group_by prefix active)"
    by (rule map_cong) (auto simp: m)
  have s: "sorted_reverse (weighted_access_score fromiso now1) obsolete_rows
        = sorted_reverse (weighted_access_score fromiso now2) obsolete_rows"
    using assms by (intro sorted_reverse_cong_on) simp
  show ?thesis
    unfolding compute_v2_selection_def Let_def e p s by (rule refl)
qed

theorem selection_same_scores_witness:
  "weighted_access_score demo_fromiso 1704000000 c8_old
     = weighted_access_score demo_fromiso 1704067200 c8_old
   \<and> weighted_access_score demo_fromiso 1704000000 c8_new
     = weighted_access_score demo_fromiso 1704067200 c8_new
   \<and> compute_v2_selection demo_fromiso 1704000000 [c8_old, c8_new] [] c8_cfg
       = compute_v2_selection demo_fromiso 1704067200 [c8_old, c8_new] [] c8_cfg"
proof -
  have h: "\<forall>e\<in>set [c8_old, c8_new] \<union> set [].
      weighted_access_score demo_fromiso 1704000000 e
        = weighted_access_score demo_fromiso 1704067200 e"
    by (simp add: weighted_access_score_def c8_old_def c8_new_def row_def demo_fromiso_def)
  show ?thesis
    using h selection_same_scores [OF h, of c8_cfg] by simp
qed

section \<open>Selection: ranking and ties\<close>

lemma c4_scores:
  "weighted_access_score demo_fromiso 1704585600 c4_first = 1"
  "weighted_access_score demo_fromiso 1704585600 c4_third = 1"
  by (simp_all add: weighted_access_score_def c4_first_def c4_third_def row_def demo_fromiso_def
        log2_8)

text \<open>
  C4, as the claim states it, fails: of two records created at the same instant the
  newest channel takes the one with the lower sequence number, and of two records with
  the same score the accessed channel takes the one that comes first in the input, here
  the one with the lower access count.
\<close>

theorem tie_break_counterexample:
  "created_at c4_first = created_at c4_second \<and> seq c4_first < seq c4_second
   \<and> fst (compute_v2_selection demo_fromiso 1704585600 [c4_first, c4_second, c4_third] []
            c4_newest_cfg) = {item_id c4_first}
   \<and> weighted_access_score demo_fromiso 1704585600 c4_first
       = weighted_access_score demo_fromiso 1704585600 c4_third
   \<and> access_count c4_first < access_count c4_third
   \<and> fst (snd (compute_v2_selection demo_fromiso 1704585600 [c4_first, c4_second, c4_third] []
                 c8_cfg)) = {item_id c4_first}"
proof -
  have g: "group_by prefix [c4_first, c4_second, c4_third]
             = [(''P'', [c4_first, c4_second, c4_third])]"
    by (simp add: group_by_def c4_first_def c4_second_def c4_third_def row_def)
  have a: "0 < access_count c4_first" "\<not> 0 < access_count c4_second"
      "0 < access_count c4_third" "access_count c4_first < access_count c4_third"
    by (simp_all add: c4_first_def c4_second_def c4_third_def row_def)
  have k: "created_key c4_first = ''2024-01-07T00:00:00Z''"
      "created_key c4_second = ''2024-01-07T00:00:00Z''"
      "created_key c4_third = ''2024-01-01T00:00:00Z''"
    by (simp_all add: created_key_def c4_first_def c4_second_def c4_third_def row_def)
  have f: "favorite c4_first = 0" "favorite c4_second = 0" "favorite c4_third = 0"
      "created_at c4_first = created_at c4_second" "seq c4_first < seq c4_second"
    by (simp_all add: c4_first_def c4_second_def c4_third_def row_def)
  have n: "newest c4_newest_cfg [c4_first, c4_second, c4_third] = [c4_first]"
    by (simp add: newest_def c4_newest_cfg_def slice_to_def sorted_reverse_def k)
  have m0: "most_accessed demo_fromiso 1704585600 c4_newest_cfg
              [c4_first, c4_second, c4_third] = []"
    by (simp add: most_accessed_def c4_newest_cfg_def slice_to_def)
  have m: "most_accessed demo_fromiso 1704585600 c8_cfg [c4_first, c4_second, c4_third]
             = [c4_first]"
    by (simp add: most_accessed_def a c8_cfg_def slice_to_def sorted_reverse_def c4_scores)
  show ?thesis
    by (simp add: compute_v2_selection_def g n m0 m f a c4_scores)
qed

text \<open>
  C4, amended: within a category the newest channel ranks the records by \<open>created_at\<close>
  descending and the accessed channel ranks the records with a positive access count by
  score descending; records with equal keys keep the order of the input (the loader's
  order, ascending sequence number), and there is no further tie-break. Each ranking is
  a permutation of its candidates, and with a non-negative cap each channel selects the
  first \<open>min(available, cap)\<close> records of its ranking.
\<close>

theorem channel_ranking:
  fixes entries :: "entry list"
  defines "accessed \<equiv> filter (\<lambda>e. 0 < access_count e) entries"
  shows "sorted_wrt (\<lambda>a b. created_key b \<le> created_key a) (sorted_reverse created_key entries)
    \<and> (\<forall>k. filter (\<lambda>e. created_key e = k) (sorted_reverse created_key entries)
            = filter (\<lambda>e. created_key e = k) entries)
    \<and> sorted_wrt (\<lambda>a b. weighted_access_score fromiso now b \<le> weighted_access_score fromiso now a)
         (sorted_reverse (weighted_access_score fromiso now) accessed)
    \<and> (\<forall>k. filter (\<lambda>e. weighted_access_score fromiso now e = k)
              (sorted_reverse (weighted_access_score fromiso now) accessed)
            = filter (\<lambda>e. weighted_access_score fromiso now e = k) accessed)
    \<and> mset (sorted_reverse created_key entries) = mset entries
    \<and> mset (sorted_reverse (weighted_access_score fromiso now) accessed) = mset accessed
    \<and> (0 \<le> topNewestCount cfg \<longrightarrow>
          newest cfg entries
            = take (min (length entries) (nat (topNewestCount cfg)))
                (sorted_reverse created_key entries)
          \<and> length (newest cfg entries) = min (length entries) (nat (topNewestCount cfg)))
    \<and> (0 \<le> topAccessCount cfg \<longrightarrow>
          most_accessed fromiso now cfg entries
            = take (min (length accessed) (nat (topAccessCount cfg)))
                (sorted_reverse (weighted_access_score fromiso now) accessed)
          \<and> length (most_accessed fromiso now cfg entries)
              = min (length accessed) (nat (topAccessCount cfg)))"
proof -
  have l: "length (sorted_reverse key xs) = length xs" for key :: "entry \<Rightarrow> 'k::linorder" and xs
    by (simp add: sorted_reverse_def)
  have t: "take (min (length xs) n) (sorted_reverse key xs) = take n (sorted_reverse key xs)"
    for key :: "entry \<Rightarrow> 'k::linorder" and xs n
    by (simp add: min_def l)
  show ?thesis
    unfolding accessed_def
    by (simp add: sorted_reverse_descending sorted_reverse_stable mset_sorted_reverse
          newest_def most_accessed_def slice_to_def t l)
qed

theorem channel_ranking_witness:
  "0 \<le> topNewestCount c4_cfg \<and> 0 \<le> topAccessCount c4_cfg
   \<and> newest c4_cfg [c4_first, c4_second, c4_third] = [c4_first]
   \<and> length (newest c4_cfg [c4_first, c4_second, c4_third]) = 1
   \<and> length (most_accessed demo_fromiso 1704585600 c4_cfg [c4_first, c4_second, c4_third]) = 1"
proof -
  have k: "created_key c4_first = ''2024-01-07T00:00:00Z''"
      "created_key c4_second = ''2024-01-07T00:00:00Z''"
      "created_key c4_third = ''2024-01-01T00:00:00Z''"
    by (simp_all add: created_key_def c4_first_def c4_second_def c4_third_def row_def)
  have a: "0 < access_count c4_first" "\<not> 0 < access_count c4_second"
      "0 < access_count c4_third"
    by (simp_all add: c4_first_def c4_second_def c4_third_def row_def)
  have c: "topNewestCount c4_cfg = 1" "topAccessCount c4_cfg = 1"
    by (simp_all add: c4_cfg_def)
  have s: "sorted_reverse created_key [c4_first, c4_second, c4_third]
             = [c4_first, c4_second, c4_third]"
    by (simp add: sorted_reverse_def k)
  show ?thesis
    using channel_ranking [of "[c4_first, c4_second, c4_third]" demo_fromiso 1704585600 c4_cfg]
    by (simp add: a c s length_sorted_reverse)
qed

section \<open>Trees: recursion limit\<close>

lemma those_map_mono:
  "(\<forall>x\<in>set xs. \<forall>y. g x = Some y \<longrightarrow> h x = Some y)
     \<Longrightarrow> those (map g xs) = Some ys \<Longrightarrow> those (map h xs) = Some ys"
proof (induction xs arbitrary: ys)
  case Nil
  then show ?case by simp
next
  case (Cons x xs)
  from Cons.prems(2) obtain y zs where y: "g x = Some y" and zs: "those (map g xs) = Some zs"
    and ys: "ys = y # zs"
    by (auto split: option.splits)
  have "h x = Some y" using Cons.prems(1) y by simp
  moreover have "those (map h xs) = Some zs"
    using Cons.IH [OF _ zs] Cons.prems(1) by simp
  ultimately show ?case by (simp add: ys)
qed

lemma add_node_to_tree_fuel_mono:
  "add_node_to_tree fuel node children_map = Some t \<Longrightarrow> fuel \<le> fuel'
     \<Longrightarrow> add_node_to_tree fuel' node children_map = Some t"
proof (induction fuel arbitrary: fuel' node t)
  case 0
  then show ?case by simp
next
  case (Suc fuel)
  from Suc.prems(2) obtain k where k: "fuel' = Suc k" and le: "fuel \<le> k"
    by (cases fuel') auto
  show ?case
  proof (cases "dict_get children_map (item_id node) = []")
    case True
    with Suc.prems(1) show ?thesis by (simp add: k)
  next
    case False
    with Suc.prems(1) obtain ts where
      ts: "those (map (\<lambda>child. add_node_to_tree fuel child children_map)
                    (dict_get children_map (item_id node))) = Some ts"
      and t: "t = Branch (NodeLabel node) ts"
      by auto
    have "those (map (\<lambda>child. add_node_to_tree k child children_map)
                   (dict_get children_map (item_id node))) = Some ts"
      using Suc.IH le by (intro those_map_mono [OF _ ts]) blast
    with False show ?thesis by (simp add: k t)
  qed
qed

section \<open>Trees: the truncation marker\<close>

text \<open>
  C6: the claim holds of the code except for the marker. With a newest cap of 0 and no
  child selected by the accessed channel, every child of the entry is hidden, the hidden
  count is positive, and the entry is added as a leaf: no truncation marker appears.
\<close>

theorem marker_lost:
  "hidden_count demo_fromiso 1704585600 (Some zero_caps)
     (dict_get (group_by parent_id [c6_child]) (item_id c6_entry)) = 1
   \<and> add_entry_to_tree 1000 demo_fromiso 1704585600 c6_entry (group_by parent_id [c6_child])
        True (Some zero_caps)
       = Some (Leaf (EntryLabel c6_entry True))"
proof -
  have k: "dict_get (group_by parent_id [c6_child]) (item_id c6_entry) = [c6_child]"
    by (simp add: dict_get_group_by c6_entry_def c6_child_def row_def child_def)
  have c: "capped_children demo_fromiso 1704585600 (Some zero_caps) [c6_child] = []"
    by (simp add: capped_children_def caps_apply_def selected_ids_def zero_caps_def newest_def
          most_accessed_def slice_to_def)
  have h: "hidden_count demo_fromiso 1704585600 (Some zero_caps) [c6_child] = 1"
    by (simp add: hidden_count_def c) (simp add: caps_apply_def zero_caps_def)
  show ?thesis
    by (simp add: add_entry_to_tree_def k c h)
qed

section \<open>Trees: capping below the first level\<close>

text \<open>
  C2, as the claim states it, fails: the children of a node are never capped. Here the
  node \<^verbatim>\<open>P0001.1\<close> has two children and the newest cap is 1; the rule would keep one of
  them, and the tree shows both, without a marker.
\<close>

theorem deep_levels_uncapped_counterexample:
  "topNewestCount c4_newest_cfg < int (length (dict_get
       (group_by parent_id [c6_child, c2_grand1, c2_grand2]) (item_id c6_child)))
   \<and> capped_children demo_fromiso 1704585600 (Some c4_newest_cfg)
        (dict_get (group_by parent_id [c6_child, c2_grand1, c2_grand2]) (item_id c6_child))
       = [c2_grand2]
   \<and> add_entry_to_tree 1000 demo_fromiso 1704585600 c6_entry
        (group_by parent_id [c6_child, c2_grand1, c2_grand2]) True (Some c4_newest_cfg)
       = Some (Branch (EntryLabel c6_entry True)
                [Branch (NodeLabel c6_child)
                   [Leaf (NodeLabel c2_grand1), Leaf (NodeLabel c2_grand2)]])"
proof -
  let ?cm = "group_by parent_id [c6_child, c2_grand1, c2_grand2]"
  have i: "item_id c6_entry = ''P0001''" "item_id c6_child = ''P0001.1''"
      "item_id c2_grand1 = ''P0001.1.1''" "item_id c2_grand2 = ''P0001.1.2''"
      "parent_id c6_child = ''P0001''" "parent_id c2_grand1 = ''P0001.1''"
      "parent_id c2_grand2 = ''P0001.1''"
    by (simp_all add: c6_entry_def c6_child_def c2_grand1_def c2_grand2_def row_def child_def)
  have k: "dict_get ?cm ''P0001'' = [c6_child]"
      "dict_get ?cm ''P0001.1'' = [c2_grand1, c2_grand2]"
      "dict_get ?cm ''P0001.1.1'' = []" "dict_get ?cm ''P0001.1.2'' = []"
    by (simp_all add: dict_get_group_by i)
  have ck: "created_key c2_grand1 = ''2024-01-01T00:00:00Z''"
      "created_key c2_grand2 = ''2024-01-07T00:00:00Z''"
    by (simp_all add: created_key_def c2_grand1_def c2_grand2_def child_def)
  have a: "\<not> 0 < access_count c2_grand1" "\<not> 0 < access_count c2_grand2"
    by (simp_all add: c2_grand1_def c2_grand2_def child_def)
  have c1: "capped_children demo_fromiso 1704585600 (Some c4_newest_cfg) [c6_child] = [c6_child]"
    by (simp add: capped_children_def caps_apply_def c4_newest_cfg_def)
  have c2: "capped_children demo_fromiso 1704585600 (Some c4_newest_cfg) [c2_grand1, c2_grand2]
              = [c2_grand2]"
    by (simp add: capped_children_def caps_apply_def selected_ids_def c4_newest_cfg_def
          newest_def most_accessed_def slice_to_def sorted_reverse_def ck a i)
  have h: "hidden_count demo_fromiso 1704585600 (Some c4_newest_cfg) [c6_child] = 0"
    by (simp add: hidden_count_def caps_apply_def c4_newest_cfg_def)
  have "add_node_to_tree (Suc (Suc 0)) c6_child ?cm
          = Some (Branch (NodeLabel c6_child)
                    [Leaf (NodeLabel c2_grand1), Leaf (NodeLabel c2_grand2)])"
    by (simp add: i k)
  then have t: "add_node_to_tree 1000 c6_child ?cm
                  = Some (Branch (NodeLabel c6_child)
                            [Leaf (NodeLabel c2_grand1), Leaf (NodeLabel c2_grand2)])"
    by (rule add_node_to_tree_fuel_mono) simp
  show ?thesis
    by (simp add: add_entry_to_tree_def i k c1 c2 h t) (simp add: c4_newest_cfg_def)
qed

section \<open>Loading: nodes without a parent\<close>



section \<open>Trees: every level below the first is shown in full\<close>

lemma those_map_list_all2:
  "those (map g xs) = Some ys \<longleftrightarrow> list_all2 (\<lambda>x y. g x = Some y) xs ys"
proof (induction xs arbitrary: ys)
  case Nil
  show ?case by auto
next
  case (Cons x xs)
  show ?case
  proof (cases "g x")
    case None
    then show ?thesis by (auto simp: list_all2_Cons1)
  next
    case (Some y)
    then show ?thesis using Cons.IH by (auto simp: list_all2_Cons1 split: option.splits)
  qed
qed

lemma those_map_total:
  assumes "\<forall>x\<in>set xs. \<exists>y. g x = Some y"
  shows "\<exists>ys. those (map g xs) = Some ys"
  using assms
proof (induction xs)
  case Nil
  show ?case by simp
next
  case (Cons x xs)
  then obtain y ys where "g x = Some y" "those (map g xs) = Some ys" by auto
  then show ?case by simp
qed

lemma root_label_add_node:
  "add_node_to_tree fuel node children_map = Some t \<Longrightarrow> root_label t = NodeLabel node"
  by (cases fuel) (auto simp: Let_def split: if_splits)

lemma add_node_to_tree_shows_all:
  "add_node_to_tree fuel node children_map = Some t \<Longrightarrow> shows_all_children children_map t"
proof (induction fuel arbitrary: node t)
  case 0
  then show ?case by simp
next
  case (Suc fuel)
  let ?kids = "dict_get children_map (item_id node)"
  show ?case
  proof (cases "?kids = []")
    case True
    with Suc.prems show ?thesis by auto
  next
    case False
    with Suc.prems obtain ts where
      ts: "those (map (\<lambda>child. add_node_to_tree fuel child children_map) ?kids) = Some ts"
      and t: "t = Branch (NodeLabel node) ts"
      by auto
    from ts have l2: "list_all2 (\<lambda>c s. add_node_to_tree fuel c children_map = Some s) ?kids ts"
      by (simp add: those_map_list_all2)
    then have "list_all2 (\<lambda>c s. root_label s = NodeLabel c) ?kids ts"
      by (rule list_all2_mono) (rule root_label_add_node)
    then have labels: "map root_label ts = map NodeLabel ?kids"
      by (induction rule: list_all2_induct) auto
    have "shows_all_children children_map s" if "s \<in> set ts" for s
    proof -
      from that l2 obtain c where "add_node_to_tree fuel c children_map = Some s"
        by (auto simp: list_all2_conv_all_nth in_set_conv_nth)
      then show ?thesis by (rule Suc.IH)
    qed
    with labels show ?thesis by (simp add: t)
  qed
qed

lemma add_node_to_tree_total:
  assumes dc: "\<forall>c\<in>set all_nodes. \<forall>p\<in>set all_nodes.
                 parent_id c = item_id p \<longrightarrow> depth c = depth p + 1"
    and bound: "\<forall>n\<in>set all_nodes. depth n \<le> D"
  shows "node \<in> set all_nodes \<Longrightarrow> D - depth node < int fuel
           \<Longrightarrow> \<exists>t. add_node_to_tree fuel node (group_by parent_id all_nodes) = Some t"
proof (induction fuel arbitrary: node)
  case 0
  from "0.prems"(1) bound have "depth node \<le> D" by blast
  with "0.prems"(2) show ?case by simp
next
  case (Suc fuel)
  let ?kids = "dict_get (group_by parent_id all_nodes) (item_id node)"
  have "\<exists>t. add_node_to_tree fuel c (group_by parent_id all_nodes) = Some t"
    if "c \<in> set ?kids" for c
  proof -
    from that have c: "c \<in> set all_nodes" "parent_id c = item_id node"
      by (simp_all add: dict_get_group_by)
    with dc Suc.prems(1) have "depth c = depth node + 1" by blast
    with Suc.prems(2) have "D - depth c < int fuel" by simp
    with c(1) show ?thesis by (rule Suc.IH)
  qed
  then have "\<forall>c\<in>set ?kids.
      \<exists>t. add_node_to_tree fuel c (group_by parent_id all_nodes) = Some t"
    by blast
  then obtain ts where
    "those (map (\<lambda>child. add_node_to_tree fuel child (group_by parent_id all_nodes)) ?kids)
       = Some ts"
    using those_map_total
            [of ?kids "\<lambda>child. add_node_to_tree fuel child (group_by parent_id all_nodes)"]
    by blast
  then show ?case by (simp add: Let_def)
qed

text \<open>
  C2, amended: capping applies only to the direct children of a root record, in
  \<open>add_entry_to_tree\<close>. From there down nothing is pruned: whatever the configuration,
  the subtree added for a visible node lists every child of every node in it, at every
  depth, and on a well-formed snapshot within the recursion limit it is always produced.
\<close>

theorem deeper_levels_in_full:
  "(\<forall>t. add_node_to_tree limit node children_map = Some t
        \<longrightarrow> shows_all_children children_map t)
   \<and> (wf_snapshot rows all_nodes \<and> fits_limit limit all_nodes \<and> node \<in> set all_nodes
        \<longrightarrow> (\<exists>t. add_node_to_tree limit node (group_by parent_id all_nodes) = Some t))"
proof -
  have "\<exists>t. add_node_to_tree limit node (group_by parent_id all_nodes) = Some t"
    if wf: "wf_snapshot rows all_nodes" and fl: "fits_limit limit all_nodes"
      and n: "node \<in> set all_nodes"
  proof -
    have dc: "\<forall>c\<in>set all_nodes. \<forall>p\<in>set all_nodes.
                parent_id c = item_id p \<longrightarrow> depth c = depth p + 1"
      using wf by (simp add: wf_snapshot_def)
    have b: "\<forall>n\<in>set all_nodes. depth n \<le> int limit"
      using fl by (simp add: fits_limit_def)
    have "2 \<le> depth node" using wf n by (simp add: wf_snapshot_def)
    then have "int limit - depth node < int limit" by simp
    with add_node_to_tree_total [OF dc b n] show ?thesis .
  qed
  moreover have "shows_all_children children_map t"
    if "add_node_to_tree limit node children_map = Some t" for t
    using that by (rule add_node_to_tree_shows_all)
  ultimately show ?thesis by blast
qed

theorem deeper_levels_in_full_witness:
  "wf_snapshot [c6_entry] [c6_child, c2_grand1, c2_grand2]
   \<and> fits_limit 1000 [c6_child, c2_grand1, c2_grand2]
   \<and> c6_child \<in> set [c6_child, c2_grand1, c2_grand2]
   \<and> add_node_to_tree 1000 c6_child (group_by parent_id [c6_child, c2_grand1, c2_grand2])
       = Some (Branch (NodeLabel c6_child)
                 [Leaf (NodeLabel c2_grand1), Leaf (NodeLabel c2_grand2)])
   \<and> shows_all_children (group_by parent_id [c6_child, c2_grand1, c2_grand2])
        (Branch (NodeLabel c6_child) [Leaf (NodeLabel c2_grand1), Leaf (NodeLabel c2_grand2)])"
proof -
  let ?cm = "group_by parent_id [c6_child, c2_grand1, c2_grand2]"
  have i: "item_id c6_entry = ''P0001''" "item_id c6_child = ''P0001.1''"
      "item_id c2_grand1 = ''P0001.1.1''" "item_id c2_grand2 = ''P0001.1.2''"
      "parent_id c6_child = ''P0001''" "parent_id c2_grand1 = ''P0001.1''"
      "parent_id c2_grand2 = ''P0001.1''"
      "depth c6_child = 2" "depth c2_grand1 = 3" "depth c2_grand2 = 3"
    by (simp_all add: c6_entry_def c6_child_def c2_grand1_def c2_grand2_def row_def child_def)
  have k: "dict_get ?cm ''P0001.1'' = [c2_grand1, c2_grand2]"
      "dict_get ?cm ''P0001.1.1'' = []" "dict_get ?cm ''P0001.1.2'' = []"
    by (simp_all add: dict_get_group_by i)
  have w: "wf_snapshot [c6_entry] [c6_child, c2_grand1, c2_grand2]"
    by (simp add: wf_snapshot_def i)
  have f: "fits_limit 1000 [c6_child, c2_grand1, c2_grand2]"
    by (simp add: fits_limit_def i)
  have "add_node_to_tree (Suc (Suc 0)) c6_child ?cm
          = Some (Branch (NodeLabel c6_child)
                    [Leaf (NodeLabel c2_grand1), Leaf (NodeLabel c2_grand2)])"
    by (simp add: i k)
  then have t: "add_node_to_tree 1000 c6_child ?cm
                  = Some (Branch (NodeLabel c6_child)
                            [Leaf (NodeLabel c2_grand1), Leaf (NodeLabel c2_grand2)])"
    by (rule add_node_to_tree_fuel_mono) simp
  have "shows_all_children ?cm
          (Branch (NodeLabel c6_child) [Leaf (NodeLabel c2_grand1), Leaf (NodeLabel c2_grand2)])"
    using deeper_levels_in_full [of 1000 c6_child ?cm "[c6_entry]"
            "[c6_child, c2_grand1, c2_grand2]"] t
    by blast
  with w f t show ?thesis by simp
qed

section \<open>Nodes without a parent: counted, never shown\<close>









lemma count_all_tokens_nodes:
  "count_all_tokens active obsolete_rows (group_by parent_id all_nodes)
     = sum_list (map (\<lambda>entry. estimate_tokens (level_1 entry)) (active @ obsolete_rows))
       + sum_list (map (\<lambda>node. estimate_tokens (content node)) all_nodes)"
  by (simp only: count_all_tokens_def sum_values_group_by)



























lemma count_subtree_tokens_fuel_mono:
  "count_subtree_tokens fuel ns children_map = Some t \<Longrightarrow> fuel \<le> fuel'
     \<Longrightarrow> count_subtree_tokens fuel' ns children_map = Some t"
proof (induction fuel arbitrary: fuel' ns t)
  case 0
  then show ?case by simp
next
  case (Suc fuel)
  from Suc.prems(2) obtain k where k: "fuel' = Suc k" and le: "fuel \<le> k"
    by (cases fuel') auto
  from Suc.prems(1) have "count_subtree_tokens (Suc k) ns children_map = Some t"
  proof (induction ns arbitrary: t)
    case Nil
    then show ?case by simp
  next
    case (Cons m ms)
    let ?kids = "dict_get children_map (item_id m)"
    from Cons.prems obtain g r where
      g: "(if ?kids \<noteq> [] then count_subtree_tokens fuel ?kids children_map else Some 0) = Some g"
      and r: "count_subtree_tokens (Suc fuel) ms children_map = Some r"
      and t: "t = estimate_tokens (content m) + g + r"
      by (auto simp: Let_def split: option.splits)
    have g': "(if ?kids \<noteq> [] then count_subtree_tokens k ?kids children_map else Some 0) = Some g"
    proof (cases "?kids = []")
      case True
      with g show ?thesis by simp
    next
      case False
      with g have "count_subtree_tokens fuel ?kids children_map = Some g" by simp
      then have "count_subtree_tokens k ?kids children_map = Some g"
        using le by (rule Suc.IH)
      with False show ?thesis by simp
    qed
    have r': "count_subtree_tokens (Suc k) ms children_map = Some r"
      using r by (rule Cons.IH)
    show ?case by (simp add: Let_def g' r' t)
  qed
  then show ?case by (simp add: k)
qed





section \<open>Token accounting: shown against total\<close>



























lemma v2_total_tok_nodes:
  "v2_total_tok fromiso now cfg active0 obsolete_rows (group_by parent_id all_nodes)
     = sum_list (map (\<lambda>e. estimate_tokens (level_1 e))
         (mark_promoted (fst (snd (compute_v2_selection fromiso now active0 obsolete_rows cfg)))
            active0 @ obsolete_rows))
       + sum_list (map (\<lambda>n. estimate_tokens (content n)) all_nodes)"
  by (simp add: v2_total_tok_def count_all_tokens_nodes case_prod_unfold)


lemma c1_fields:
  "item_id c6_entry = ''P0001''" "prefix c6_entry = ''P''" "obsolete c6_entry = 0"
  "favorite c6_entry = 0" "\<not> 0 < access_count c6_entry"
  "level_1 c6_entry = ''Project notes''" "c6_entry\<lparr>promoted := False\<rparr> = c6_entry"
  "created_key c6_entry = ''2024-01-01T00:00:00Z''"
  "item_id c1_hidden = ''E0001''" "obsolete c1_hidden = 1" "level_1 c1_hidden = ''old''"
  "item_id c6_child = ''P0001.1''" "parent_id c6_child = ''P0001''" "depth c6_child = 2"
  "content c6_child = ''first detail''" "\<not> 0 < access_count c6_child"
  "created_key c6_child = ''2024-01-01T00:00:00Z''"
  "item_id c1_child2 = ''P0001.2''" "parent_id c1_child2 = ''P0001''" "depth c1_child2 = 2"
  "content c1_child2 = ''second detail''" "\<not> 0 < access_count c1_child2"
  "created_key c1_child2 = ''2024-01-07T00:00:00Z''"
  "c6_child \<noteq> c1_child2" "c1_child2 \<noteq> c6_child"
  by (simp_all add: c6_entry_def c1_hidden_def c6_child_def c1_child2_def row_def child_def
        created_key_def)





section \<open>Token accounting: what the invariants exclude\<close>

text \<open>
  The bound on the shown tokens needs the invariants of the data model, which the engine
  does not check. When a node carries the id of a record, the children filed under that
  id are counted once below the record and once below the node: here the shown tokens
  are 12 and the total is 9.
\<close>

lemma shared_id_counted_twice:
  "\<not> wf_snapshot [c6_entry, c1_second] [c6_child, c1_clash]
   \<and> v2_shown_tok 1000 demo_fromiso 1704585600 DEFAULT_V2_CONFIG [c6_entry, c1_second] []
        (group_by parent_id [c6_child, c1_clash]) = Some 12
   \<and> v2_total_tok demo_fromiso 1704585600 DEFAULT_V2_CONFIG [c6_entry, c1_second] []
        (group_by parent_id [c6_child, c1_clash]) = 9"
proof -
  let ?cm = "group_by parent_id [c6_child, c1_clash]"
  let ?now = "1704585600 :: real"
  have i: "item_id c1_second = ''P0002''" "prefix c1_second = ''P''"
      "favorite c1_second = 0" "\<not> 0 < access_count c1_second"
      "level_1 c1_second = ''Second project''" "c1_second\<lparr>promoted := False\<rparr> = c1_second"
      "created_key c1_second = ''2024-01-07T00:00:00Z''"
      "item_id c1_clash = ''P0001''" "parent_id c1_clash = ''P0002''" "depth c1_clash = 2"
      "content c1_clash = ''dup''"
    by (simp_all add: c1_second_def c1_clash_def row_def child_def created_key_def)
  have nw: "\<not> wf_snapshot [c6_entry, c1_second] [c6_child, c1_clash]"
    by (simp add: wf_snapshot_def c1_fields i)
  have k: "dict_get ?cm ''P0001'' = [c6_child]" "dict_get ?cm ''P0002'' = [c1_clash]"
      "dict_get ?cm ''P0001.1'' = []"
    by (simp_all add: dict_get_group_by c1_fields i)
  have g: "group_by prefix [c6_entry, c1_second] = [(''P'', [c6_entry, c1_second])]"
    by (simp add: group_by_def c1_fields i)
  have sel: "compute_v2_selection demo_fromiso ?now [c6_entry, c1_second] [] DEFAULT_V2_CONFIG
               = ({''P0001'', ''P0002''}, {}, [])"
    by (auto simp: compute_v2_selection_def g newest_def most_accessed_def slice_to_def
          sorted_reverse_def DEFAULT_V2_CONFIG_def c1_fields i)
  have va: "v2_active demo_fromiso ?now DEFAULT_V2_CONFIG [c6_entry, c1_second] []
              = [c6_entry, c1_second]"
    by (simp add: v2_active_def sel mark_promoted_def c1_fields i)
  have vo: "v2_visible_obsolete demo_fromiso ?now DEFAULT_V2_CONFIG [c6_entry, c1_second] [] = []"
    by (simp add: v2_visible_obsolete_def sel)
  have cap: "capped_children demo_fromiso ?now (Some DEFAULT_V2_CONFIG) [c6_child] = [c6_child]"
      "capped_children demo_fromiso ?now (Some DEFAULT_V2_CONFIG) [c1_clash] = [c1_clash]"
    by (simp_all add: capped_children_def caps_apply_def DEFAULT_V2_CONFIG_def)
  have "count_subtree_tokens (Suc (Suc 0)) [c6_child] ?cm = Some 3"
    by (simp add: c1_fields k estimate_tokens_def)
  then have cs1: "count_subtree_tokens 1000 [c6_child] ?cm = Some 3"
    by (rule count_subtree_tokens_fuel_mono) simp
  have "count_subtree_tokens (Suc (Suc 0)) [c1_clash] ?cm = Some 3"
    by (simp add: c1_fields i k estimate_tokens_def)
  then have cs2: "count_subtree_tokens 1000 [c1_clash] ?cm = Some 3"
    by (rule count_subtree_tokens_fuel_mono) simp
  have st: "v2_shown_tok 1000 demo_fromiso ?now DEFAULT_V2_CONFIG [c6_entry, c1_second] [] ?cm
              = Some 12"
    by (simp add: v2_shown_tok_def va vo c1_fields i k cap cs1 cs2 estimate_tokens_def)
  have tt: "v2_total_tok demo_fromiso ?now DEFAULT_V2_CONFIG [c6_entry, c1_second] [] ?cm = 9"
    by (simp add: v2_total_tok_nodes sel mark_promoted_def c1_fields i estimate_tokens_def)
  from nw st tt show ?thesis by simp
qed

end
